theory Spec2Isabelle
  imports Complex_Main "HOL-Library.Sublist" "HOL-Library.Char_ord"
begin

section \<open>Birth certificate verification: the pipeline of app.py\<close>

text \<open>
  Texts and messages are Python strings, modelled as \<^typ>\<open>string\<close>: a character is
  a code point below 256. Python's substring test \<^verbatim>\<open>p in s\<close> is \<^const>\<open>sublist\<close>.
  The word characters of the regular expression are Python's on this whole range.
  \<^verbatim>\<open>str.upper\<close> is modelled on the letters a to z: a character from 128 up goes to
  characters from 128 up, but for the sharp s, which goes to SS, and none of the three
  phrases of the classifier contains SS.
\<close>

subsection \<open>Document classification\<close>

text \<open>\<^verbatim>\<open>str.upper\<close>: the letters a to z go to A to Z, everything else stays.\<close>

definition upper_char :: "char \<Rightarrow> char" where
  "upper_char c =
     (if CHR ''a'' \<le> c \<and> c \<le> CHR ''z'' then char_of (of_char c - (32::nat)) else c)"

definition upper :: "string \<Rightarrow> string" where
  "upper text = map upper_char text"

definition detect_document_type :: "string \<Rightarrow> string" where
  "detect_document_type text =
     (if sublist ''CERTIFICATE OF BIRTH'' (upper text) then ''Certificate of Birth''
      else if sublist ''CERTIFIED TRANSCRIPT OF BIRTH'' (upper text)
        then ''Certified Birth Transcript''
      else if sublist ''CERTIFICATE OF LIVE BIRTH'' (upper text)
        then ''Certificate of Live Birth''
      else ''Unknown Document Type'')"

subsection \<open>Serial number detection\<close>

text \<open>
  \<^verbatim>\<open>re.search(r'\b[A-Z0-9]{7,12}\b', text)\<close>. The pieces of the pattern: the class
  \<^verbatim>\<open>[A-Z0-9]\<close>, the word characters that decide \<^verbatim>\<open>\b\<close>, the greedy bounded
  repetition with its backtracking, and the scan over the start positions from left to
  right.
\<close>

definition in_class :: "char \<Rightarrow> bool" where
  "in_class c = ((CHR ''A'' \<le> c \<and> c \<le> CHR ''Z'') \<or> (CHR ''0'' \<le> c \<and> c \<le> CHR ''9''))"

text \<open>
  The pattern is a \<^verbatim>\<open>str\<close> pattern, so a word character is an alphanumeric character
  of Unicode or the underscore. Below 128 the alphanumeric characters are the letters and
  the digits; from 128 to 255 they are the 71 code points 170 (feminine ordinal), 178, 179
  and 185 (superscript digits), 181 (micro sign), 186 (masculine ordinal), 188 to 190
  (fractions) and the letters 192 to 214, 216 to 246 and 248 to 255.
\<close>

definition is_alnum :: "char \<Rightarrow> bool" where
  "is_alnum c =
     ((CHR ''a'' \<le> c \<and> c \<le> CHR ''z'') \<or> (CHR ''A'' \<le> c \<and> c \<le> CHR ''Z'') \<or>
      (CHR ''0'' \<le> c \<and> c \<le> CHR ''9'') \<or>
      (let n = of_char c :: nat
       in n = 170 \<or> n = 178 \<or> n = 179 \<or> n = 181 \<or> n = 185 \<or> n = 186 \<or>
          (188 \<le> n \<and> n \<le> 190) \<or> (192 \<le> n \<and> n \<le> 214) \<or>
          (216 \<le> n \<and> n \<le> 246) \<or> 248 \<le> n))"

definition is_word :: "char \<Rightarrow> bool" where
  "is_word c = (is_alnum c \<or> c = CHR ''_'')"

text \<open>
  \<^verbatim>\<open>\b\<close> at position \<open>p\<close>: the character before and the character at \<open>p\<close>
  differ in being word characters; beyond either end of the text counts as not a
  word character.
\<close>

definition at_boundary :: "string \<Rightarrow> nat \<Rightarrow> bool" where
  "at_boundary s p =
     (let thatp = (0 < p \<and> p - 1 < length s \<and> is_word (s ! (p - 1)));
          thisp = (p < length s \<and> is_word (s ! p))
      in thisp \<noteq> thatp)"

text \<open>
  A match attempt at start position \<open>i\<close>: \<^verbatim>\<open>\b\<close>, then as many class characters
  as there are, at most 12; then \<^verbatim>\<open>\b\<close> is tried after the longest repetition first
  and the repetition gives characters back one at a time, down to 7. The result is
  the length of the match.
\<close>

definition match_at :: "string \<Rightarrow> nat \<Rightarrow> nat option" where
  "match_at s i =
     (if at_boundary s i then
        (let m = length (takeWhile in_class (take 12 (drop i s)))
         in find (\<lambda>k. at_boundary s (i + k)) (rev [7..<Suc m]))
      else None)"

fun first_match :: "string \<Rightarrow> nat list \<Rightarrow> string option" where
  "first_match s [] = None"
| "first_match s (i # starts) =
     (case match_at s i of
        Some k \<Rightarrow> Some (take k (drop i s))
      | None \<Rightarrow> first_match s starts)"

definition re_search :: "string \<Rightarrow> string option" where
  "re_search s = first_match s [0..<Suc (length s)]"

definition check_serial_number :: "string \<Rightarrow> string" where
  "check_serial_number text =
     (case re_search text of Some m \<Rightarrow> m | None \<Rightarrow> ''Not Found'')"

subsection \<open>The image library and the OCR engine\<close>

text \<open>
  OpenCV, NumPy and Tesseract are not part of the repository: the calls the source
  makes are the fields of a record, over any type of images. A float is modelled by its
  exact value, a real number. The OCR call is the one that can raise.
\<close>

datatype error = TesseractNotFoundError | TesseractError

record 'img library =
  cvtColor_BGR2GRAY :: "'img \<Rightarrow> 'img"
  GaussianBlur :: "'img \<Rightarrow> nat \<times> nat \<Rightarrow> real \<Rightarrow> 'img"
  addWeighted :: "'img \<Rightarrow> real \<Rightarrow> 'img \<Rightarrow> real \<Rightarrow> real \<Rightarrow> 'img"
  image_to_string :: "'img \<Rightarrow> string \<Rightarrow> error + string"
  Canny :: "'img \<Rightarrow> real \<Rightarrow> real \<Rightarrow> 'img"
  mean :: "'img \<Rightarrow> real"
  Laplacian_var :: "'img \<Rightarrow> real"

definition preprocess_image :: "'img library \<Rightarrow> 'img \<Rightarrow> 'img" where
  "preprocess_image lib img =
     (let gray = cvtColor_BGR2GRAY lib img;
          blurred = GaussianBlur lib gray (5, 5) 0;
          sharpened = addWeighted lib gray (3 / 2) blurred (- 1 / 2) 0
      in sharpened)"

text \<open>There is no handler around the OCR call: what it raises, \<open>extract_text\<close> raises.\<close>

definition extract_text :: "'img library \<Rightarrow> 'img \<Rightarrow> error + string" where
  "extract_text lib img =
     (let preprocessed_image = preprocess_image lib img
      in case image_to_string lib preprocessed_image ''--psm 6'' of
           Inl e \<Rightarrow> Inl e
         | Inr text \<Rightarrow> Inr text)"

subsection \<open>Seal and signature detection\<close>

definition detect_seals_and_signatures :: "'img library \<Rightarrow> 'img \<Rightarrow> string" where
  "detect_seals_and_signatures lib img =
     (let edges = Canny lib img 100 200;
          edge_score = mean lib edges
      in if edge_score > 100 then ''Seal/Signature Detected''
         else ''Seal/Signature Not Detected'')"

subsection \<open>Pixelation analysis\<close>

text \<open>
  The format \<^verbatim>\<open>{laplacian_var:.2f}\<close>: the float is rounded to the nearest multiple of
  1/100, a tie going to the even one, and written with all the digits of its integer part
  and two digits after the point.
\<close>

definition round_half_even :: "real \<Rightarrow> int" where
  "round_half_even x =
     (let f = \<lfloor>x\<rfloor>; d = x - of_int f
      in if d < 1 / 2 then f else if 1 / 2 < d then f + 1
         else if even f then f else f + 1)"

definition digit_char :: "nat \<Rightarrow> char" where
  "digit_char d = char_of (48 + d)"

fun digits :: "nat \<Rightarrow> string" where
  "digits n = (if n < 10 then [digit_char n] else digits (n div 10) @ [digit_char (n mod 10)])"

declare digits.simps [simp del]

definition format_2f :: "real \<Rightarrow> string" where
  "format_2f x =
     (let n = nat (round_half_even (\<bar>x\<bar> * 100))
      in (if x < 0 then ''-'' else []) @ digits (n div 100) @ ''.'' @
         [digit_char (n div 10 mod 10), digit_char (n mod 10)])"

definition pixelation_analysis :: "'img library \<Rightarrow> 'img \<Rightarrow> string" where
  "pixelation_analysis lib img =
     (let laplacian_var = Laplacian_var lib img
      in if laplacian_var < 50
           then ''High Pixelation Detected (Possible Tampering) - Score: '' @ format_2f laplacian_var
         else if 50 \<le> laplacian_var \<and> laplacian_var < 100
           then ''Moderate Pixelation - Score: '' @ format_2f laplacian_var
         else ''Low Pixelation (Likely Authentic) - Score: '' @ format_2f laplacian_var)"

subsection \<open>Confidence score and recommendation\<close>

text \<open>Lines 102 to 112: the score starts at 0 and each rule that fires adds its points.\<close>

definition confidence_score :: "string \<Rightarrow> string \<Rightarrow> string \<Rightarrow> string \<Rightarrow> int" where
  "confidence_score document_type serial_number seal_status pixelation_result =
     (let s0 = 0;
          s1 = (if document_type \<noteq> ''Unknown Document Type'' then s0 + 3 else s0);
          s2 = (if serial_number \<noteq> ''Not Found'' then s1 + 2 else s1);
          s3 = (if sublist ''Detected'' seal_status then s2 + 3 else s2);
          s4 = (if sublist ''Low Pixelation'' pixelation_result then s3 + 2
                else if sublist ''Moderate Pixelation'' pixelation_result then s3 + 1
                else s3)
      in s4)"

text \<open>
  Lines 114 to 119. The three recommendation messages of the source are fixed string
  literals; each is represented by one constructor.
\<close>

datatype recommendation = Proceed | HoldForReview | HighFraudRisk

definition recommendation :: "int \<Rightarrow> recommendation" where
  "recommendation score =
     (if score \<ge> 7 then Proceed
      else if 5 \<le> score \<and> score < 7 then HoldForReview
      else HighFraudRisk)"

subsection \<open>The pipeline\<close>

text \<open>Lines 96 to 119, for an uploaded image already decoded to a pixel array.\<close>

record report =
  document_type :: string
  serial_number :: string
  seal_status :: string
  pixelation_result :: string
  score :: int
  advice :: recommendation

definition validation_report :: "'img library \<Rightarrow> 'img \<Rightarrow> error + report" where
  "validation_report lib image_cv =
     (case extract_text lib image_cv of
        Inl e \<Rightarrow> Inl e
      | Inr extracted_text \<Rightarrow>
          (let dt = detect_document_type extracted_text;
               sn = check_serial_number extracted_text;
               ss = detect_seals_and_signatures lib image_cv;
               pr = pixelation_analysis lib image_cv;
               cs = confidence_score dt sn ss pr
           in Inr \<lparr>document_type = dt, serial_number = sn, seal_status = ss,
                    pixelation_result = pr, score = cs, advice = recommendation cs\<rparr>))"

subsection \<open>Libraries with fixed answers\<close>

text \<open>
  A library whose OCR engine reads the same text from every image and whose two
  measurements are constants, and one whose OCR engine raises. They stand for the
  external collaborators when the pipeline is run on a concrete input.
\<close>

definition constant_library :: "string \<Rightarrow> real \<Rightarrow> real \<Rightarrow> 'img library" where
  "constant_library text edge_score laplacian_var =
     \<lparr>cvtColor_BGR2GRAY = (\<lambda>img. img),
      GaussianBlur = (\<lambda>img ksize sigma. img),
      addWeighted = (\<lambda>src1 alpha src2 beta gamma. src1),
      image_to_string = (\<lambda>img config. Inr text),
      Canny = (\<lambda>img lo hi. img),
      mean = (\<lambda>img. edge_score),
      Laplacian_var = (\<lambda>img. laplacian_var)\<rparr>"

definition failing_ocr_library :: "'img library" where
  "failing_ocr_library =
     (constant_library [] 0 0)\<lparr>image_to_string := (\<lambda>img config. Inl TesseractError)\<rparr>"

section \<open>The specification's notions\<close>

text \<open>
  The definitions of this section are not taken from the source: they word what the
  specification says, so that the source's functions can be compared with them.
\<close>

subsection \<open>The rule table\<close>

text \<open>
  Section 4.5 of the specification: the four signals as closed sets of variants, the
  serial number as an optional token, and the sum of the four contributions.
\<close>

datatype doc_label = CertificateOfBirth | CertifiedBirthTranscript | CertificateOfLiveBirth | Unknown

datatype seal_verdict = Detected | NotDetected

datatype pixelation_verdict = LowPixelation | ModeratePixelation | HighPixelation

definition table_score :: "doc_label \<Rightarrow> string option \<Rightarrow> seal_verdict \<Rightarrow> pixelation_verdict \<Rightarrow> int" where
  "table_score doc_type serial seal pixelation =
     (if doc_type \<noteq> Unknown then 3 else 0) +
     (if serial \<noteq> None then 2 else 0) +
     (if seal = Detected then 3 else 0) +
     (case pixelation of LowPixelation \<Rightarrow> 2 | ModeratePixelation \<Rightarrow> 1 | HighPixelation \<Rightarrow> 0)"

subsection \<open>Letter case\<close>

text \<open>
  A case variant of a text is the text with the case of some of its letters switched;
  the lowercase form is one of them.
\<close>

definition swapcase_char :: "char \<Rightarrow> char" where
  "swapcase_char c =
     (if CHR ''a'' \<le> c \<and> c \<le> CHR ''z'' then char_of (of_char c - (32::nat))
      else if CHR ''A'' \<le> c \<and> c \<le> CHR ''Z'' then char_of (of_char c + (32::nat))
      else c)"

definition case_variant :: "string \<Rightarrow> string \<Rightarrow> bool" where
  "case_variant s t = list_all2 (\<lambda>a b. b = a \<or> b = swapcase_char a) s t"

definition lower_char :: "char \<Rightarrow> char" where
  "lower_char c =
     (if CHR ''A'' \<le> c \<and> c \<le> CHR ''Z'' then char_of (of_char c + (32::nat)) else c)"

definition lower :: "string \<Rightarrow> string" where
  "lower text = map lower_char text"

text \<open>A phrase occurs in a text up to letter case: some substring is a case variant of it.\<close>

definition occurs_ignoring_case :: "string \<Rightarrow> string \<Rightarrow> bool" where
  "occurs_ignoring_case phrase text = (\<exists>s. sublist s text \<and> case_variant phrase s)"

subsection \<open>Runs of serial characters\<close>

text \<open>
  The \<open>n\<close> characters of \<open>t\<close> from position \<open>i\<close> are 7 to 12 uppercase letters or
  digits, and neither the character before them nor the character after them, if there is
  one, is in the class \<open>adjacent\<close>. With the word characters for \<open>adjacent\<close> the run
  is bounded by word boundaries; with the alphanumeric characters it is not adjacent to
  another alphanumeric character.
\<close>

definition bounded_run :: "(char \<Rightarrow> bool) \<Rightarrow> string \<Rightarrow> nat \<Rightarrow> nat \<Rightarrow> bool" where
  "bounded_run adjacent t i n =
     (7 \<le> n \<and> n \<le> 12 \<and> i + n \<le> length t \<and> list_all in_class (take n (drop i t)) \<and>
      (i = 0 \<or> \<not> adjacent (t ! (i - 1))) \<and>
      (i + n = length t \<or> \<not> adjacent (t ! (i + n))))"

subsection \<open>Decimal numerals\<close>

text \<open>The number that a string of decimal digits denotes.\<close>

definition decimal_value :: "string \<Rightarrow> nat" where
  "decimal_value ds = foldl (\<lambda>a c. 10 * a + (of_char c - 48)) 0 ds"

section \<open>Properties\<close>

subsection \<open>Scoring\<close>

lemma seal_status_has_Detected:
  "sublist ''Detected'' (detect_seals_and_signatures lib img)"
proof -
  have yes: "sublist ''Detected'' ''Seal/Signature Detected''"
    by code_simp
  have no: "sublist ''Detected'' ''Seal/Signature Not Detected''"
    by code_simp
  show ?thesis
    unfolding detect_seals_and_signatures_def Let_def using yes no by simp
qed

lemma confidence_score_le_10: "confidence_score dt sn ss pr \<le> 10"
  by (simp add: confidence_score_def Let_def)

lemma confidence_score_seal:
  "sublist ''Detected'' ss \<Longrightarrow> confidence_score dt sn ss pr = confidence_score dt sn [] pr + 3"
  by (simp add: confidence_score_def Let_def)

text \<open>
  C4. The recommendation is Proceed exactly from 7 up, HoldForReview exactly for 5 and 6,
  HighFraudRisk exactly below 5; so 7 gives Proceed, 6 and 5 give HoldForReview and 4 gives
  HighFraudRisk. No combination of signals scores more than 10, and one scores 10.
\<close>

theorem recommendation_thresholds:
  "(recommendation n = Proceed \<longleftrightarrow> 7 \<le> n) \<and>
   (recommendation n = HoldForReview \<longleftrightarrow> 5 \<le> n \<and> n < 7) \<and>
   (recommendation n = HighFraudRisk \<longleftrightarrow> n < 5) \<and>
   recommendation 7 = Proceed \<and> recommendation 6 = HoldForReview \<and>
   recommendation 5 = HoldForReview \<and> recommendation 4 = HighFraudRisk \<and>
   confidence_score dt sn ss pr \<le> 10 \<and>
   confidence_score ''Certificate of Birth'' ''AB1234567'' ''Seal/Signature Detected''
     ''Low Pixelation (Likely Authentic) - Score: 123.45'' = 10"
proof -
  have top: "confidence_score ''Certificate of Birth'' ''AB1234567'' ''Seal/Signature Detected''
     ''Low Pixelation (Likely Authentic) - Score: 123.45'' = 10"
    by code_simp
  have cut: "(recommendation n = Proceed \<longleftrightarrow> 7 \<le> n) \<and>
   (recommendation n = HoldForReview \<longleftrightarrow> 5 \<le> n \<and> n < 7) \<and>
   (recommendation n = HighFraudRisk \<longleftrightarrow> n < 5)"
    by (auto simp: recommendation_def)
  have pins: "recommendation 7 = Proceed \<and> recommendation 6 = HoldForReview \<and>
   recommendation 5 = HoldForReview \<and> recommendation 4 = HighFraudRisk"
    by (simp add: recommendation_def)
  from top cut pins confidence_score_le_10 [of dt sn ss pr] show ?thesis
    by blast
qed

theorem recommendation_thresholds_witness:
  "recommendation 6 = HoldForReview \<and> \<not> (7 \<le> (6::int)) \<and>
   confidence_score ''Unknown Document Type'' ''Not Found'' [] [] \<le> 10"
  using recommendation_thresholds [of 6 "''Unknown Document Type''" "''Not Found''" "[]" "[]"]
  by simp

text \<open>
  C2. Both strings that \<open>detect_seals_and_signatures\<close> returns contain "Detected", so
  the seal rule adds its 3 points for every image, whatever the verdict: the score is the
  score of the other three rules plus 3; it is at least 3 and never 0, also in every report
  the pipeline produces.
\<close>

theorem seal_rule_always_fires:
  "sublist ''Detected'' (detect_seals_and_signatures lib img) \<and>
   confidence_score dt sn (detect_seals_and_signatures lib img) pr =
     confidence_score dt sn [] pr + 3 \<and>
   3 \<le> confidence_score dt sn (detect_seals_and_signatures lib img) pr \<and>
   confidence_score dt sn (detect_seals_and_signatures lib img) pr \<noteq> 0 \<and>
   (\<forall>r. validation_report lib img = Inr r \<longrightarrow> 3 \<le> score r \<and> score r \<noteq> 0)"
proof -
  have base: "0 \<le> confidence_score d s [] p" for d s p
    by (simp add: confidence_score_def Let_def)
  have eq: "confidence_score d s (detect_seals_and_signatures lib img) p =
      confidence_score d s [] p + 3" for d s p
    by (rule confidence_score_seal [OF seal_status_has_Detected])
  have ge: "3 \<le> confidence_score d s (detect_seals_and_signatures lib img) p" for d s p
    using base [of d s p] eq [of d s p] by linarith
  have rep: "3 \<le> score r \<and> score r \<noteq> 0" if "validation_report lib img = Inr r" for r
  proof -
    from that obtain d s p
      where "score r = confidence_score d s (detect_seals_and_signatures lib img) p"
      by (auto simp: validation_report_def Let_def split: sum.splits)
    with ge [of d s p] show ?thesis
      by simp
  qed
  from seal_status_has_Detected [of lib img] eq [of dt sn pr] ge [of dt sn pr] rep
  show ?thesis
    by force
qed

theorem seal_rule_always_fires_witness:
  "validation_report (constant_library ''no text'' 0 0) () =
     Inr \<lparr>document_type = ''Unknown Document Type'', serial_number = ''Not Found'',
          seal_status = ''Seal/Signature Not Detected'',
          pixelation_result = ''High Pixelation Detected (Possible Tampering) - Score: 0.00'',
          score = 3, advice = HighFraudRisk\<rparr> \<and>
   3 \<le> score \<lparr>document_type = ''Unknown Document Type'', serial_number = ''Not Found'',
          seal_status = ''Seal/Signature Not Detected'',
          pixelation_result = ''High Pixelation Detected (Possible Tampering) - Score: 0.00'',
          score = 3, advice = HighFraudRisk\<rparr>"
proof -
  have run: "validation_report (constant_library ''no text'' 0 0) () =
     Inr \<lparr>document_type = ''Unknown Document Type'', serial_number = ''Not Found'',
          seal_status = ''Seal/Signature Not Detected'',
          pixelation_result = ''High Pixelation Detected (Possible Tampering) - Score: 0.00'',
          score = 3, advice = HighFraudRisk\<rparr>"
    by code_simp
  from seal_rule_always_fires [of "constant_library ''no text'' 0 0" "()" "[]" "[]" "[]"] run
  show ?thesis
    by simp
qed

subsection \<open>Letter case and classification\<close>

lemma upper_char_case_variant:
  "b = a \<or> b = swapcase_char a \<Longrightarrow> upper_char b = upper_char a"
  unfolding swapcase_char_def upper_char_def less_eq_char_def
  by (auto split: if_splits)

lemma upper_lower_char: "upper_char (lower_char c) = upper_char c"
  unfolding lower_char_def upper_char_def less_eq_char_def
  by (auto split: if_splits)

lemma upper_char_eq_iff:
  assumes "upper_char p = p"
  shows "upper_char a = p \<longleftrightarrow> a = p \<or> a = swapcase_char p"
  using assms unfolding swapcase_char_def upper_char_def less_eq_char_def
  by (auto split: if_splits)

lemma upper_case_variant: "case_variant s t \<Longrightarrow> upper t = upper s"
  unfolding case_variant_def upper_def
  by (induction s t rule: list_all2_induct) (auto simp: upper_char_case_variant)

lemma upper_lower: "upper (lower text) = upper text"
  by (simp add: upper_def lower_def upper_lower_char)

lemma lower_case_variant: "case_variant text (lower text)"
  unfolding case_variant_def lower_def list_all2_map2
  by (rule list_all2_refl) (auto simp: lower_char_def swapcase_char_def less_eq_char_def)

lemma upper_eq_iff_case_variant:
  "upper p = p \<Longrightarrow> upper s = p \<longleftrightarrow> case_variant p s"
proof (induction p arbitrary: s)
  case Nil
  then show ?case by (simp add: upper_def case_variant_def)
next
  case (Cons c p)
  from Cons.prems have c: "upper_char c = c" and p: "upper p = p"
    by (simp_all add: upper_def)
  show ?case
  proof (cases s)
    case Nil
    then show ?thesis by (simp add: upper_def case_variant_def)
  next
    case (Cons a s')
    have "upper (a # s') = c # p \<longleftrightarrow> upper_char a = c \<and> upper s' = p"
      by (simp add: upper_def)
    also have "\<dots> \<longleftrightarrow> (a = c \<or> a = swapcase_char c) \<and> case_variant p s'"
      using upper_char_eq_iff [OF c] Cons.IH [OF p] by simp
    also have "\<dots> \<longleftrightarrow> case_variant (c # p) (a # s')"
      by (simp add: case_variant_def)
    finally show ?thesis using Cons by simp
  qed
qed

lemma sublist_map_iff: "sublist p (map f t) \<longleftrightarrow> (\<exists>s. sublist s t \<and> map f s = p)"
proof
  assume "sublist p (map f t)"
  then obtain ps ss where "map f t = ps @ p @ ss"
    by (auto simp: sublist_def)
  then obtain a r where r: "t = a @ r" "p @ ss = map f r"
    unfolding map_eq_append_conv by blast
  from r(2) [symmetric] obtain b c where "r = b @ c" "p = map f b"
    unfolding map_eq_append_conv by blast
  with r(1) have "t = a @ b @ c" "map f b = p"
    by simp_all
  then show "\<exists>s. sublist s t \<and> map f s = p"
    by auto
next
  assume "\<exists>s. sublist s t \<and> map f s = p"
  then show "sublist p (map f t)"
    using map_mono_sublist by blast
qed

lemma sublist_upper_iff:
  "upper p = p \<Longrightarrow> sublist p (upper text) \<longleftrightarrow> occurs_ignoring_case p text"
  unfolding occurs_ignoring_case_def
  using upper_eq_iff_case_variant [of p]
  by (simp add: sublist_map_iff [of p upper_char "text", folded upper_def] upper_def [symmetric])

lemma phrases_upper:
  "upper ''CERTIFICATE OF BIRTH'' = ''CERTIFICATE OF BIRTH''"
  "upper ''CERTIFIED TRANSCRIPT OF BIRTH'' = ''CERTIFIED TRANSCRIPT OF BIRTH''"
  "upper ''CERTIFICATE OF LIVE BIRTH'' = ''CERTIFICATE OF LIVE BIRTH''"
  by code_simp+

text \<open>
  C5. Classification is a search for the three phrases up to letter case, in the fixed
  order CERTIFICATE OF BIRTH, CERTIFIED TRANSCRIPT OF BIRTH, CERTIFICATE OF LIVE BIRTH: the
  label is that of the first phrase that occurs, and the unknown label when none does. It
  is defined on every text and its value is one of the four labels.
\<close>

theorem detect_document_type_priority:
  "detect_document_type text =
     (if occurs_ignoring_case ''CERTIFICATE OF BIRTH'' text then ''Certificate of Birth''
      else if occurs_ignoring_case ''CERTIFIED TRANSCRIPT OF BIRTH'' text
        then ''Certified Birth Transcript''
      else if occurs_ignoring_case ''CERTIFICATE OF LIVE BIRTH'' text
        then ''Certificate of Live Birth''
      else ''Unknown Document Type'') \<and>
   detect_document_type text \<in>
     {''Certificate of Birth'', ''Certified Birth Transcript'', ''Certificate of Live Birth'',
      ''Unknown Document Type''}"
  unfolding detect_document_type_def
  by (simp only: sublist_upper_iff [OF phrases_upper(1)] sublist_upper_iff [OF phrases_upper(2)]
      sublist_upper_iff [OF phrases_upper(3)]) simp

theorem detect_document_type_priority_witness:
  "detect_document_type ''certificate of live birth (not a Certificate of Birth)'' =
     ''Certificate of Birth'' \<and>
   occurs_ignoring_case ''CERTIFICATE OF BIRTH''
     ''certificate of live birth (not a Certificate of Birth)''"
proof -
  have run: "detect_document_type ''certificate of live birth (not a Certificate of Birth)'' =
     ''Certificate of Birth''"
    by code_simp
  from detect_document_type_priority
         [of "''certificate of live birth (not a Certificate of Birth)''"] run
  show ?thesis
    by (simp split: if_splits)
qed

subsection \<open>The search for a serial number\<close>

lemma in_class_is_word: "in_class c \<Longrightarrow> is_word c"
  by (auto simp: in_class_def is_word_def is_alnum_def)

lemma find_SomeD: "find P xs = Some x \<Longrightarrow> P x \<and> x \<in> set xs"
  by (induction xs) (auto split: if_splits)

lemma take_eq_ConsD: "take n xs = c # cs \<Longrightarrow> xs \<noteq> [] \<and> hd xs = c"
  by (cases xs; cases n) auto

lemma match_at_imp_run:
  assumes "match_at s i = Some k"
  shows "bounded_run is_word s i k"
proof -
  define tok where "tok = takeWhile in_class (take 12 (drop i s))"
  from assms have bi: "at_boundary s i"
    and f: "find (\<lambda>k. at_boundary s (i + k)) (rev [7..<Suc (length tok)]) = Some k"
    by (auto simp: match_at_def Let_def tok_def split: if_splits)
  from find_SomeD [OF f] have bk: "at_boundary s (i + k)" and "k \<in> set [7..<Suc (length tok)]"
    by (simp_all only: set_rev)
  then have k: "7 \<le> k" "k \<le> length tok"
    by (simp_all only: set_upt atLeastLessThan_iff less_Suc_eq_le)
  have pre: "prefix tok (drop i s)"
    unfolding tok_def by (meson prefix_order.order_trans take_is_prefix takeWhile_is_prefix)
  have len12: "length tok \<le> 12"
    unfolding tok_def by (rule order_trans [OF length_takeWhile_le]) simp
  from pre have lens: "length tok \<le> length s - i"
    using prefix_length_le by fastforce
  with k have ik: "i + k \<le> length s" "i < length s"
    by linarith+
  have cls: "in_class c" if "c \<in> set tok" for c
    using that unfolding tok_def by (auto dest: set_takeWhileD)
  from pre k have tk: "take k (drop i s) = take k tok"
    by (auto simp: prefix_def)
  have all: "list_all in_class (take k (drop i s))"
    unfolding tk list_all_iff using cls by (auto dest: in_set_takeD)
  have nth: "s ! (i + j) = tok ! j" if "j < length tok" for j
  proof -
    from pre obtain r where "drop i s = tok @ r"
      by (auto simp: prefix_def)
    then have "drop i s ! j = tok ! j"
      using that by (simp add: nth_append)
    then show ?thesis
      using ik lens that by simp
  qed
  have first: "is_word (s ! i)"
  proof -
    have pos: "0 < length tok"
      using k by linarith
    then have "tok ! 0 \<in> set tok"
      by (rule nth_mem)
    then have "is_word (tok ! 0)"
      using cls in_class_is_word by blast
    with nth [OF pos] show ?thesis
      by simp
  qed
  have last: "is_word (s ! (i + k - 1))"
  proof -
    have "s ! (i + (k - 1)) = tok ! (k - 1)"
      using k by (intro nth) linarith
    moreover have "tok ! (k - 1) \<in> set tok"
      using k by (intro nth_mem) linarith
    ultimately show ?thesis
      using cls in_class_is_word k by (simp add: Nat.add_diff_assoc)
  qed
  from bi first ik have left: "i = 0 \<or> \<not> is_word (s ! (i - 1))"
    by (auto simp: at_boundary_def Let_def)
  from bk last ik k have right: "i + k = length s \<or> \<not> is_word (s ! (i + k))"
    by (auto simp: at_boundary_def Let_def)
  from k len12 ik all left right show ?thesis
    by (simp add: bounded_run_def)
qed

lemma run_imp_match_at:
  assumes "bounded_run is_word s i k"
  shows "match_at s i = Some k"
proof -
  from assms have k: "7 \<le> k" "k \<le> 12" and ik: "i + k \<le> length s"
    and all: "list_all in_class (take k (drop i s))"
    and left: "i = 0 \<or> \<not> is_word (s ! (i - 1))"
    and right: "i + k = length s \<or> \<not> is_word (s ! (i + k))"
    by (simp_all add: bounded_run_def)
  define tok where "tok = take k (drop i s)"
  define rest where "rest = drop (i + k) s"
  have split: "drop i s = tok @ rest"
    unfolding tok_def rest_def by (metis add.commute append_take_drop_id drop_drop)
  have ltok: "length tok = k"
    unfolding tok_def using ik by simp
  have cls: "\<forall>c\<in>set tok. in_class c"
    using all unfolding tok_def list_all_iff .
  have stop: "takeWhile in_class (take (12 - k) rest) = []"
  proof (cases "take (12 - k) rest")
    case Nil
    show ?thesis unfolding Nil by simp
  next
    case (Cons c cs)
    then have "rest \<noteq> []" "c = hd rest"
      by (auto dest: take_eq_ConsD)
    then have "i + k < length s" "c = hd rest"
      unfolding rest_def by auto
    then have "c = s ! (i + k)"
      unfolding rest_def by (simp add: hd_drop_conv_nth)
    with right \<open>i + k < length s\<close> have "\<not> in_class c"
      using in_class_is_word by auto
    with Cons show ?thesis by simp
  qed
  have m: "length (takeWhile in_class (take 12 (drop i s))) = k"
    unfolding split using cls stop ltok k by (simp add: takeWhile_append2)
  have first: "is_word (s ! i)" "i < length s"
  proof -
    show "i < length s" using k ik by linarith
    have "tok \<noteq> []" using ltok k by auto
    then have "hd tok \<in> set tok" by simp
    moreover have "hd tok = s ! i"
      unfolding tok_def using k \<open>i < length s\<close> by (simp add: hd_drop_conv_nth)
    ultimately show "is_word (s ! i)"
      using cls in_class_is_word by auto
  qed
  have last: "is_word (s ! (i + k - 1))"
  proof -
    have "tok ! (k - 1) \<in> set tok"
      using ltok k by (intro nth_mem) linarith
    moreover have "tok ! (k - 1) = s ! (i + (k - 1))"
      unfolding tok_def using k ik by simp
    ultimately show ?thesis
      using cls in_class_is_word k by (simp add: Nat.add_diff_assoc)
  qed
  have bi: "at_boundary s i"
    using left first by (auto simp: at_boundary_def Let_def)
  have bk: "at_boundary s (i + k)"
    using right last k ik by (auto simp: at_boundary_def Let_def)
  have "rev [7..<Suc k] = k # rev [7..<k]"
    using k by simp
  then have "find (\<lambda>n. at_boundary s (i + n)) (rev [7..<Suc k]) = Some k"
    using bk by simp
  with bi m show ?thesis
    by (simp add: match_at_def Let_def)
qed

lemma match_at_iff: "match_at s i = Some k \<longleftrightarrow> bounded_run is_word s i k"
  using match_at_imp_run run_imp_match_at by blast

lemma first_match_None: "first_match s starts = None \<longleftrightarrow> (\<forall>i\<in>set starts. match_at s i = None)"
  by (induction starts) (auto split: option.splits)

lemma first_match_skip:
  "\<forall>j\<in>set before. match_at s j = None \<Longrightarrow> match_at s i = Some k \<Longrightarrow>
     first_match s (before @ i # after) = Some (take k (drop i s))"
  by (induction before) auto

lemma first_match_Some:
  "first_match s starts = Some tok \<Longrightarrow>
     \<exists>before i after k. starts = before @ i # after \<and> (\<forall>j\<in>set before. match_at s j = None) \<and>
        match_at s i = Some k \<and> tok = take k (drop i s)"
proof (induction starts)
  case Nil
  then show ?case by simp
next
  case (Cons a starts)
  show ?case
  proof (cases "match_at s a")
    case None
    with Cons.prems have "first_match s starts = Some tok"
      by simp
    from Cons.IH [OF this] obtain before i after k
      where "starts = before @ i # after" "\<forall>j\<in>set before. match_at s j = None"
        "match_at s i = Some k" "tok = take k (drop i s)"
      by blast
    with None have "a # starts = (a # before) @ i # after \<and>
        (\<forall>j\<in>set (a # before). match_at s j = None) \<and>
        match_at s i = Some k \<and> tok = take k (drop i s)"
      by simp
    then show ?thesis by blast
  next
    case (Some k)
    with Cons.prems have "a # starts = [] @ a # starts \<and> (\<forall>j\<in>set []. match_at s j = None) \<and>
        match_at s a = Some k \<and> tok = take k (drop a s)"
      by auto
    then show ?thesis by blast
  qed
qed

lemma not_found_not_token: "\<not> list_all in_class ''Not Found''"
  by code_simp

lemma re_search_None: "re_search s = None \<longleftrightarrow> (\<forall>i k. \<not> bounded_run is_word s i k)"
proof
  assume none: "re_search s = None"
  show "\<forall>i k. \<not> bounded_run is_word s i k"
  proof (intro allI notI)
    fix i k
    assume run: "bounded_run is_word s i k"
    then have "i \<in> set [0..<Suc (length s)]"
      by (simp add: bounded_run_def)
    with none have "match_at s i = None"
      unfolding re_search_def first_match_None by blast
    with run show False
      by (simp add: run_imp_match_at)
  qed
next
  assume "\<forall>i k. \<not> bounded_run is_word s i k"
  then have "match_at s i = None" for i
    using match_at_imp_run [of s i] by (cases "match_at s i") auto
  then show "re_search s = None"
    unfolding re_search_def first_match_None by blast
qed

lemma re_search_first:
  assumes run: "bounded_run is_word s i k"
    and first: "\<forall>j<i. \<forall>m. \<not> bounded_run is_word s j m"
  shows "re_search s = Some (take k (drop i s))"
proof -
  from run have le: "i \<le> length s"
    by (simp add: bounded_run_def)
  have pos: "[0..<Suc (length s)] = [0..<i] @ i # [Suc i..<Suc (length s)]"
  proof -
    have "[0..<i + (Suc (length s) - i)] = [0..<i] @ [i..<i + (Suc (length s) - i)]"
      by (rule upt_add_eq_append) simp
    moreover have "i + (Suc (length s) - i) = Suc (length s)"
      using le by simp
    moreover have "[i..<Suc (length s)] = i # [Suc i..<Suc (length s)]"
      using le by (intro upt_conv_Cons) simp
    ultimately show ?thesis
      by simp
  qed
  have before: "\<forall>j\<in>set [0..<i]. match_at s j = None"
  proof
    fix j
    assume "j \<in> set [0..<i]"
    then have "j < i" by simp
    with first have "\<forall>m. \<not> bounded_run is_word s j m" by blast
    then show "match_at s j = None"
      using match_at_imp_run [of s j] by (cases "match_at s j") auto
  qed
  show ?thesis
    unfolding re_search_def pos
    by (rule first_match_skip [OF before run_imp_match_at [OF run]])
qed

lemma re_search_Some:
  assumes "re_search s = Some tok"
  shows "\<exists>i k. bounded_run is_word s i k \<and> (\<forall>j<i. \<forall>m. \<not> bounded_run is_word s j m) \<and>
           tok = take k (drop i s)"
proof -
  from first_match_Some [OF assms [unfolded re_search_def]] obtain before i after k
    where pos: "[0..<Suc (length s)] = before @ i # after"
      and none: "\<forall>j\<in>set before. match_at s j = None"
      and m: "match_at s i = Some k" and tok: "tok = take k (drop i s)"
    by blast
  have run: "bounded_run is_word s i k"
    by (rule match_at_imp_run [OF m])
  have "j \<in> set before" if "j < i" for j
  proof -
    have len: "length before < Suc (length s)"
      using arg_cong [OF pos, of length] by simp
    have "i = [0..<Suc (length s)] ! length before"
      unfolding pos by simp
    also have "\<dots> = length before"
      using len by (simp only: nth_upt add_0)
    finally have i: "i = length before" .
    have "before = take (length before) [0..<Suc (length s)]"
      unfolding pos by simp
    also have "\<dots> = [0..<length before]"
      using len by (simp add: take_upt)
    finally have "set before = {0..<i}"
      using i by (metis set_upt)
    with that show ?thesis by simp
  qed
  with none have "\<forall>j<i. \<forall>m. \<not> bounded_run is_word s j m"
    using run_imp_match_at by fastforce
  with run tok show ?thesis
    by blast
qed

lemma bounded_run_token:
  "bounded_run adj s i k \<Longrightarrow>
     length (take k (drop i s)) = k \<and> 7 \<le> k \<and> k \<le> 12 \<and> list_all in_class (take k (drop i s))"
  by (auto simp: bounded_run_def)

lemma check_serial_number_Not_Found:
  "check_serial_number s = ''Not Found'' \<longleftrightarrow> (\<forall>i k. \<not> bounded_run is_word s i k)"
proof (cases "re_search s")
  case None
  then show ?thesis
    using re_search_None [of s] by (simp add: check_serial_number_def)
next
  case (Some tok)
  from re_search_Some [OF this] obtain i k
    where run: "bounded_run is_word s i k" and tok: "tok = take k (drop i s)"
    by blast
  from bounded_run_token [OF run] tok have "list_all in_class tok"
    by simp
  with not_found_not_token have "tok \<noteq> ''Not Found''"
    by auto
  with Some run show ?thesis
    by (auto simp: check_serial_number_def)
qed

text \<open>
  C6, as amended. The serial number is the leftmost run of 7 to 12 uppercase letters or
  digits that is bounded by word boundaries, that is, adjacent to no word character: no
  alphanumeric character, of ASCII or beyond, and no underscore. When the text has no such
  run the result is the not-found marker, and only then; a token that is returned has 7 to
  12 characters, all of them uppercase letters or digits.
\<close>

theorem check_serial_number_first_run:
  "(bounded_run is_word text i n \<and> (\<forall>j<i. \<forall>m. \<not> bounded_run is_word text j m) \<longrightarrow>
      check_serial_number text = take n (drop i text)) \<and>
   ((\<forall>i n. \<not> bounded_run is_word text i n) \<longleftrightarrow> check_serial_number text = ''Not Found'') \<and>
   (check_serial_number text \<noteq> ''Not Found'' \<longrightarrow>
      7 \<le> length (check_serial_number text) \<and> length (check_serial_number text) \<le> 12 \<and>
      list_all in_class (check_serial_number text))"
proof (intro conjI impI)
  assume "bounded_run is_word text i n \<and> (\<forall>j<i. \<forall>m. \<not> bounded_run is_word text j m)"
  then show "check_serial_number text = take n (drop i text)"
    using re_search_first [of "text" i n] by (simp add: check_serial_number_def)
next
  show "(\<forall>i n. \<not> bounded_run is_word text i n) \<longleftrightarrow> check_serial_number text = ''Not Found''"
    using check_serial_number_Not_Found [of "text"] by simp
next
  assume found: "check_serial_number text \<noteq> ''Not Found''"
  then obtain tok where some: "re_search text = Some tok"
    by (cases "re_search text") (auto simp: check_serial_number_def)
  from re_search_Some [OF this] obtain i k
    where run: "bounded_run is_word text i k" and tok: "tok = take k (drop i text)"
    by blast
  from some have eq: "check_serial_number text = tok"
    by (simp add: check_serial_number_def)
  from bounded_run_token [OF run] tok eq
  show "7 \<le> length (check_serial_number text)" "length (check_serial_number text) \<le> 12"
    "list_all in_class (check_serial_number text)"
    by simp_all
qed

theorem check_serial_number_first_run_witness:
  "bounded_run is_word '' AB1234567 / CD7654321'' 1 9 \<and>
   \<not> bounded_run is_word '' AB1234567 / CD7654321'' 0 9 \<and>
   check_serial_number '' AB1234567 / CD7654321'' = ''AB1234567''"
proof -
  have run: "bounded_run is_word '' AB1234567 / CD7654321'' 1 9"
    by code_simp
  have first: "\<forall>j<1. \<forall>m. \<not> bounded_run is_word '' AB1234567 / CD7654321'' j m"
    by (simp add: bounded_run_def take_Cons' in_class_def less_eq_char_def)
  have tok: "take 9 (drop 1 '' AB1234567 / CD7654321'') = ''AB1234567''"
    by code_simp
  from check_serial_number_first_run [of "'' AB1234567 / CD7654321''" 1 9] run first tok
  show ?thesis
    by simp
qed

text \<open>
  A letter beyond ASCII is a word character: after an e with acute accent the first run is
  not bounded, and the second run is the result.
\<close>

lemma letter_beyond_ascii_beside_run:
  "is_word (CHR 0xE9) \<and>
   check_serial_number (CHR 0xE9 # ''AB1234567 CD7654321'') = ''CD7654321'' \<and>
   check_serial_number (CHR 0xE9 # ''AB1234567'') = ''Not Found''"
  by code_simp

text \<open>
  C6, as stated, reads the word boundaries as "not adjacent to other alphanumeric
  characters". An underscore is not alphanumeric, yet it is a word character: the run
  \<open>AB1234567\<close> below touches no alphanumeric character and is not returned.
\<close>

theorem underscore_beside_run_counterexample:
  "bounded_run is_alnum ''No. AB1234567_'' 4 9 \<and>
   check_serial_number ''No. AB1234567_'' = ''Not Found''"
  by code_simp

subsection \<open>The phrases and the serial search\<close>

lemma sublist_upper: "upper p = p \<Longrightarrow> sublist p t \<Longrightarrow> sublist p (upper t)"
  using map_mono_sublist [of p t upper_char] by (simp add: upper_def)

lemma detect_document_type_known:
  assumes "sublist ''CERTIFICATE OF BIRTH'' t \<or> sublist ''CERTIFIED TRANSCRIPT OF BIRTH'' t \<or>
     sublist ''CERTIFICATE OF LIVE BIRTH'' t"
  shows "detect_document_type t \<noteq> ''Unknown Document Type''"
  using assms sublist_upper [OF phrases_upper(1), of t] sublist_upper [OF phrases_upper(2), of t]
    sublist_upper [OF phrases_upper(3), of t]
  by (auto simp: detect_document_type_def)

lemma space_not_word: "\<not> is_word CHR '' ''"
  by (simp add: is_word_def is_alnum_def less_eq_char_def)

lemma transcript_run:
  "bounded_run is_word (ps @ ''CERTIFIED TRANSCRIPT OF BIRTH'' @ ss) (length ps + 10) 10"
  by (simp add: bounded_run_def nth_append in_class_def space_not_word less_eq_char_def)

lemma certificate_run:
  assumes "ps = [] \<or> \<not> is_word (last ps)"
  shows "bounded_run is_word (ps @ ''CERTIFICATE '' @ ss) (length ps) 11"
proof -
  have "ps = [] \<or> \<not> is_word ((ps @ ''CERTIFICATE '' @ ss) ! (length ps - 1))"
    using assms by (cases "ps = []") (simp_all add: nth_append last_conv_nth)
  then show ?thesis
    by (simp add: bounded_run_def nth_append in_class_def space_not_word less_eq_char_def)
qed

lemma confidence_score_serial:
  "sn \<noteq> ''Not Found'' \<Longrightarrow>
     confidence_score dt sn ss pr = confidence_score dt ''Not Found'' ss pr + 2"
  by (simp add: confidence_score_def Let_def)

text \<open>
  C9, as amended. A text that contains CERTIFIED TRANSCRIPT OF BIRTH always yields a token,
  since TRANSCRIPT stands between two spaces. A text that contains CERTIFICATE OF BIRTH or
  CERTIFICATE OF LIVE BIRTH yields a token when the phrase starts the text or follows a
  character that is not a word character. A text that contains one of the three phrases in
  uppercase is classified, and whenever a token is found the serial rule adds its 2 points.
\<close>

theorem phrase_yields_serial_token:
  "(sublist ''CERTIFIED TRANSCRIPT OF BIRTH'' text \<longrightarrow>
      check_serial_number text \<noteq> ''Not Found'') \<and>
   ((phrase = ''CERTIFICATE OF BIRTH'' \<or> phrase = ''CERTIFICATE OF LIVE BIRTH'') \<and>
    text = before @ phrase @ rest \<and> (before = [] \<or> \<not> is_word (last before)) \<longrightarrow>
      check_serial_number text \<noteq> ''Not Found'') \<and>
   (sublist ''CERTIFICATE OF BIRTH'' text \<or> sublist ''CERTIFIED TRANSCRIPT OF BIRTH'' text \<or>
    sublist ''CERTIFICATE OF LIVE BIRTH'' text \<longrightarrow>
      detect_document_type text \<noteq> ''Unknown Document Type'') \<and>
   (check_serial_number text \<noteq> ''Not Found'' \<longrightarrow>
      confidence_score dt (check_serial_number text) ss pr =
        confidence_score dt ''Not Found'' ss pr + 2)"
proof (intro conjI impI)
  assume "sublist ''CERTIFIED TRANSCRIPT OF BIRTH'' text"
  then obtain ps sf where "text = ps @ ''CERTIFIED TRANSCRIPT OF BIRTH'' @ sf"
    by (auto simp: sublist_def)
  then have "bounded_run is_word text (length ps + 10) 10"
    using transcript_run [of ps sf] by simp
  then show "check_serial_number text \<noteq> ''Not Found''"
    unfolding check_serial_number_Not_Found by blast
next
  assume a: "(phrase = ''CERTIFICATE OF BIRTH'' \<or> phrase = ''CERTIFICATE OF LIVE BIRTH'') \<and>
    text = before @ phrase @ rest \<and> (before = [] \<or> \<not> is_word (last before))"
  then obtain tl where "text = before @ ''CERTIFICATE '' @ tl"
    by auto
  moreover from a have "before = [] \<or> \<not> is_word (last before)"
    by blast
  ultimately have "bounded_run is_word text (length before) 11"
    using certificate_run [of before tl] by simp
  then show "check_serial_number text \<noteq> ''Not Found''"
    unfolding check_serial_number_Not_Found by blast
next
  assume "sublist ''CERTIFICATE OF BIRTH'' text \<or> sublist ''CERTIFIED TRANSCRIPT OF BIRTH'' text \<or>
    sublist ''CERTIFICATE OF LIVE BIRTH'' text"
  then show "detect_document_type text \<noteq> ''Unknown Document Type''"
    by (rule detect_document_type_known)
next
  assume "check_serial_number text \<noteq> ''Not Found''"
  then show "confidence_score dt (check_serial_number text) ss pr =
        confidence_score dt ''Not Found'' ss pr + 2"
    by (rule confidence_score_serial)
qed

theorem phrase_yields_serial_token_witness:
  "sublist ''CERTIFIED TRANSCRIPT OF BIRTH''
     ''No. 1: CERTIFICATE OF BIRTH (CERTIFIED TRANSCRIPT OF BIRTH)'' \<and>
   ''No. 1: CERTIFICATE OF BIRTH (CERTIFIED TRANSCRIPT OF BIRTH)'' =
     ''No. 1: '' @ ''CERTIFICATE OF BIRTH'' @ '' (CERTIFIED TRANSCRIPT OF BIRTH)'' \<and>
   \<not> is_word (last ''No. 1: '') \<and>
   check_serial_number ''No. 1: CERTIFICATE OF BIRTH (CERTIFIED TRANSCRIPT OF BIRTH)'' \<noteq>
     ''Not Found'' \<and>
   detect_document_type ''No. 1: CERTIFICATE OF BIRTH (CERTIFIED TRANSCRIPT OF BIRTH)'' \<noteq>
     ''Unknown Document Type'' \<and>
   confidence_score ''Certificate of Birth''
       (check_serial_number ''No. 1: CERTIFICATE OF BIRTH (CERTIFIED TRANSCRIPT OF BIRTH)'') [] [] =
     confidence_score ''Certificate of Birth'' ''Not Found'' [] [] + 2"
proof -
  have sub: "sublist ''CERTIFIED TRANSCRIPT OF BIRTH''
     ''No. 1: CERTIFICATE OF BIRTH (CERTIFIED TRANSCRIPT OF BIRTH)''"
    by code_simp
  have eq: "''No. 1: CERTIFICATE OF BIRTH (CERTIFIED TRANSCRIPT OF BIRTH)'' =
     ''No. 1: '' @ ''CERTIFICATE OF BIRTH'' @ '' (CERTIFIED TRANSCRIPT OF BIRTH)''"
    by simp
  have bd: "\<not> is_word (last ''No. 1: '')"
    by code_simp
  from phrase_yields_serial_token
         [of "''No. 1: CERTIFICATE OF BIRTH (CERTIFIED TRANSCRIPT OF BIRTH)''"
             "''CERTIFICATE OF BIRTH''" "''No. 1: ''" "'' (CERTIFIED TRANSCRIPT OF BIRTH)''"
             "''Certificate of Birth''" "[]" "[]"] sub eq bd
  show ?thesis
    by blast
qed

text \<open>
  The word character before the phrase may be a letter beyond ASCII: no token then either.
\<close>

lemma phrase_after_letter_beyond_ascii:
  "check_serial_number (CHR 0xE9 # ''CERTIFICATE OF BIRTH'') = ''Not Found''"
  by code_simp

text \<open>
  C9, as stated, fails when the phrase follows a word character: here CERTIFICATE is the
  end of a run of 13 uppercase letters, the text is classified and no token is found.
\<close>

theorem phrase_after_letters_counterexample:
  "sublist ''CERTIFICATE OF BIRTH'' ''XXCERTIFICATE OF BIRTH'' \<and>
   detect_document_type ''XXCERTIFICATE OF BIRTH'' = ''Certificate of Birth'' \<and>
   check_serial_number ''XXCERTIFICATE OF BIRTH'' = ''Not Found''"
  by code_simp

subsection \<open>Letter case and the serial search\<close>

lemma no_class_char_Not_Found:
  assumes "list_all (\<lambda>c. \<not> in_class c) t"
  shows "check_serial_number t = ''Not Found''"
proof -
  have "\<not> bounded_run is_word t i k" for i k
  proof
    assume run: "bounded_run is_word t i k"
    then have "take k (drop i t) \<noteq> []"
      by (auto simp: bounded_run_def)
    then have "hd (take k (drop i t)) \<in> set (take k (drop i t))"
      by (rule hd_in_set)
    then obtain c where c: "c \<in> set (take k (drop i t))"
      by blast
    with run have "in_class c"
      by (auto simp: bounded_run_def list_all_iff)
    moreover from c have "c \<in> set t"
      by (auto dest!: in_set_takeD in_set_dropD)
    ultimately show False
      using assms by (auto simp: list_all_iff)
  qed
  then show ?thesis
    by (simp add: check_serial_number_Not_Found)
qed

text \<open>
  C10. Classification does not depend on letter case: a case variant of a text, its
  lowercase form among them, gets the label of the text. The serial search does: a text
  without uppercase letters and digits has no token, and of the two case variants
  \<open>CERTIFICATE OF BIRTH\<close> and \<open>certificate of birth\<close>, which have the same label, the
  first has the token \<open>CERTIFICATE\<close> and the second has none.
\<close>

theorem classification_ignores_case_serial_search_does_not:
  "(case_variant text variant \<longrightarrow> detect_document_type variant = detect_document_type text) \<and>
   detect_document_type (lower text) = detect_document_type text \<and>
   (list_all (\<lambda>c. \<not> in_class c) text \<longrightarrow> check_serial_number text = ''Not Found'') \<and>
   case_variant ''CERTIFICATE OF BIRTH'' ''certificate of birth'' \<and>
   lower ''CERTIFICATE OF BIRTH'' = ''certificate of birth'' \<and>
   detect_document_type ''CERTIFICATE OF BIRTH'' = ''Certificate of Birth'' \<and>
   detect_document_type ''certificate of birth'' = ''Certificate of Birth'' \<and>
   ''Certificate of Birth'' \<noteq> ''Unknown Document Type'' \<and>
   check_serial_number ''CERTIFICATE OF BIRTH'' = ''CERTIFICATE'' \<and>
   check_serial_number ''certificate of birth'' = ''Not Found'' \<and>
   ''CERTIFICATE'' \<noteq> ''Not Found''"
proof -
  have variant: "detect_document_type v = detect_document_type t" if "case_variant t v" for t v
    using upper_case_variant [OF that] by (simp add: detect_document_type_def)
  have low: "detect_document_type (lower text) = detect_document_type text"
    by (simp add: detect_document_type_def upper_lower)
  have cv: "case_variant ''CERTIFICATE OF BIRTH'' ''certificate of birth''"
    by code_simp
  have lw: "lower ''CERTIFICATE OF BIRTH'' = ''certificate of birth''"
    by code_simp
  have up: "detect_document_type ''CERTIFICATE OF BIRTH'' = ''Certificate of Birth''"
    by code_simp
  have dn: "detect_document_type ''certificate of birth'' = ''Certificate of Birth''"
    by code_simp
  have run: "bounded_run is_word ''CERTIFICATE OF BIRTH'' 0 11"
    by code_simp
  have "re_search ''CERTIFICATE OF BIRTH'' = Some (take 11 (drop 0 ''CERTIFICATE OF BIRTH''))"
    by (rule re_search_first [OF run]) simp
  then have tok: "check_serial_number ''CERTIFICATE OF BIRTH'' = ''CERTIFICATE''"
    by (simp add: check_serial_number_def)
  have none: "check_serial_number ''certificate of birth'' = ''Not Found''"
    by code_simp
  have ne: "''Certificate of Birth'' \<noteq> ''Unknown Document Type''" "''CERTIFICATE'' \<noteq> ''Not Found''"
    by simp_all
  from variant [of "text" variant] low no_class_char_Not_Found [of "text"] cv lw up dn tok none ne
  show ?thesis
    by blast
qed

theorem classification_ignores_case_serial_search_does_not_witness:
  "case_variant ''Certificate of Birth'' ''cERTIFICATE OF bIRTH'' \<and>
   detect_document_type ''cERTIFICATE OF bIRTH'' = detect_document_type ''Certificate of Birth'' \<and>
   list_all (\<lambda>c. \<not> in_class c) ''a certificate of birth'' \<and>
   check_serial_number ''a certificate of birth'' = ''Not Found''"
proof -
  have cv: "case_variant ''Certificate of Birth'' ''cERTIFICATE OF bIRTH''"
    by code_simp
  have nc: "list_all (\<lambda>c. \<not> in_class c) ''a certificate of birth''"
    by code_simp
  have d: "detect_document_type ''cERTIFICATE OF bIRTH'' = detect_document_type ''Certificate of Birth''"
    by (rule mp [OF classification_ignores_case_serial_search_does_not
          [of "''Certificate of Birth''" "''cERTIFICATE OF bIRTH''", THEN conjunct1] cv])
  have n: "check_serial_number ''a certificate of birth'' = ''Not Found''"
    by (rule mp [OF classification_ignores_case_serial_search_does_not
          [of "''a certificate of birth''" "[]", THEN conjunct2, THEN conjunct2, THEN conjunct1] nc])
  show ?thesis
    by (intro conjI cv d nc n)
qed

subsection \<open>Pixelation messages\<close>

lemma digit_char_range: "d < 10 \<Longrightarrow> CHR ''0'' \<le> digit_char d \<and> digit_char d \<le> CHR ''9''"
  by (simp add: digit_char_def less_eq_char_def)

lemma digits_range: "c \<in> set (digits n) \<Longrightarrow> CHR ''0'' \<le> c \<and> c \<le> CHR ''9''"
proof (induction n rule: digits.induct)
  case (1 n)
  show ?case
  proof (cases "n < 10")
    case True
    with "1.prems" have "c = digit_char n"
      by (simp add: digits.simps [of n])
    with True show ?thesis
      using digit_char_range [of n] by simp
  next
    case False
    with "1.prems" have "c \<in> set (digits (n div 10)) \<or> c = digit_char (n mod 10)"
      by (auto simp: digits.simps [of n])
    then show ?thesis
      using "1.IH" [OF False] digit_char_range [of "n mod 10"] by auto
  qed
qed

lemma format_2f_chars:
  assumes "c \<in> set (format_2f x)"
  shows "c = CHR ''-'' \<or> c = CHR ''.'' \<or> (CHR ''0'' \<le> c \<and> c \<le> CHR ''9'')"
proof -
  define n where "n = nat (round_half_even (\<bar>x\<bar> * 100))"
  from assms have "c = CHR ''-'' \<or> c \<in> set (digits (n div 100)) \<or> c = CHR ''.'' \<or>
      c = digit_char (n div 10 mod 10) \<or> c = digit_char (n mod 10)"
    unfolding format_2f_def Let_def n_def [symmetric] by (cases "x < 0") auto
  moreover have "CHR ''0'' \<le> digit_char (n div 10 mod 10) \<and> digit_char (n div 10 mod 10) \<le> CHR ''9''"
    by (rule digit_char_range) simp
  moreover have "CHR ''0'' \<le> digit_char (n mod 10) \<and> digit_char (n mod 10) \<le> CHR ''9''"
    by (rule digit_char_range) simp
  ultimately show ?thesis
    using digits_range [of c "n div 100"] by blast
qed

lemma format_2f_no_letter:
  "CHR ''L'' \<notin> set (format_2f x)" "CHR ''M'' \<notin> set (format_2f x)"
  using format_2f_chars [of "CHR ''L''" x] format_2f_chars [of "CHR ''M''" x]
  by (auto simp: less_eq_char_def)

lemma not_sublist_by_char: "c \<in> set p \<Longrightarrow> c \<notin> set s \<Longrightarrow> \<not> sublist p s"
  using set_mono_sublist by fastforce

lemma high_message_tests:
  "\<not> sublist ''Low Pixelation'' (''High Pixelation Detected (Possible Tampering) - Score: '' @ format_2f x)"
  "\<not> sublist ''Moderate Pixelation'' (''High Pixelation Detected (Possible Tampering) - Score: '' @ format_2f x)"
  by (rule not_sublist_by_char [of "CHR ''L''"]; simp add: format_2f_no_letter)
     (rule not_sublist_by_char [of "CHR ''M''"]; simp add: format_2f_no_letter)

lemma moderate_message_tests:
  "\<not> sublist ''Low Pixelation'' (''Moderate Pixelation - Score: '' @ format_2f x)"
  "sublist ''Moderate Pixelation'' (''Moderate Pixelation - Score: '' @ format_2f x)"
proof -
  show "\<not> sublist ''Low Pixelation'' (''Moderate Pixelation - Score: '' @ format_2f x)"
    by (rule not_sublist_by_char [of "CHR ''L''"]; simp add: format_2f_no_letter)
  have "prefix ''Moderate Pixelation'' (''Moderate Pixelation - Score: '' @ format_2f x)"
    by simp
  then show "sublist ''Moderate Pixelation'' (''Moderate Pixelation - Score: '' @ format_2f x)"
    by (rule prefix_imp_sublist)
qed

lemma low_message_tests:
  "sublist ''Low Pixelation'' (''Low Pixelation (Likely Authentic) - Score: '' @ format_2f x)"
proof -
  have "prefix ''Low Pixelation'' (''Low Pixelation (Likely Authentic) - Score: '' @ format_2f x)"
    by simp
  then show ?thesis
    by (rule prefix_imp_sublist)
qed

lemma round_half_even_near: "\<bar>x - of_int (round_half_even x)\<bar> \<le> 1 / 2"
proof -
  have "of_int \<lfloor>x\<rfloor> \<le> x" "x < of_int \<lfloor>x\<rfloor> + 1"
    by linarith+
  then show ?thesis
    unfolding round_half_even_def Let_def by (simp split: if_splits)
qed

lemma round_half_even_nonneg: "0 \<le> x \<Longrightarrow> 0 \<le> round_half_even x"
  unfolding round_half_even_def Let_def by (auto split: if_splits)

lemma decimal_value_snoc:
  "decimal_value (ds @ [c]) = 10 * decimal_value ds + (of_char c - 48)"
  by (simp add: decimal_value_def)

lemma of_char_digit_char: "d < 10 \<Longrightarrow> of_char (digit_char d) - 48 = d"
  by (simp add: digit_char_def)

lemma decimal_value_digits: "decimal_value (digits n) = n"
proof (induction n rule: digits.induct)
  case (1 n)
  show ?case
  proof (cases "n < 10")
    case True
    then show ?thesis
      by (simp add: digits.simps [of n] decimal_value_def of_char_digit_char)
  next
    case False
    have "decimal_value (digits n) = 10 * decimal_value (digits (n div 10)) + n mod 10"
      using False by (simp add: digits.simps [of n] decimal_value_snoc of_char_digit_char)
    with "1.IH" [OF False] show ?thesis
      by simp
  qed
qed

lemma scale_100: "100 * a + b = n \<Longrightarrow> a + b / 100 = n / (100::real)"
  by (simp add: field_simps)

lemma format_2f_value:
  "\<exists>a b c. b < 10 \<and> c < 10 \<and>
     format_2f x = (if x < 0 then ''-'' else []) @ digits a @ ''.'' @ [digit_char b, digit_char c] \<and>
     decimal_value (digits a) = a \<and>
     \<bar>\<bar>x\<bar> - (real a + real (10 * b + c) / 100)\<bar> \<le> 1 / 200"
proof -
  define n where "n = nat (round_half_even (\<bar>x\<bar> * 100))"
  have nn: "0 \<le> round_half_even (\<bar>x\<bar> * 100)"
    by (rule round_half_even_nonneg) simp
  have "n div 100 = n div 10 div 10"
    using div_mult2_eq [of n 10 10] by simp
  moreover have "10 * (n div 10) + n mod 10 = n"
    by simp
  moreover have "10 * (n div 10 div 10) + n div 10 mod 10 = n div 10"
    by simp
  ultimately have "100 * (n div 100) + (10 * (n div 10 mod 10) + n mod 10) = n"
    by linarith
  then have "real (100 * (n div 100) + (10 * (n div 10 mod 10) + n mod 10)) = real n"
    by (rule arg_cong)
  then have "100 * real (n div 100) + real (10 * (n div 10 mod 10) + n mod 10) = real n"
    by (simp only: of_nat_add of_nat_mult of_nat_numeral)
  then have val: "real (n div 100) + real (10 * (n div 10 mod 10) + n mod 10) / 100 = real n / 100"
    by (rule scale_100)
  have "real n = of_int (round_half_even (\<bar>x\<bar> * 100))"
    unfolding n_def using nn by simp
  with round_half_even_near [of "\<bar>x\<bar> * 100"] have "\<bar>\<bar>x\<bar> * 100 - real n\<bar> \<le> 1 / 2"
    by simp
  then have near: "\<bar>\<bar>x\<bar> - real n / 100\<bar> \<le> 1 / 200"
    by (simp add: abs_le_iff field_simps)
  have "n div 10 mod 10 < 10 \<and> n mod 10 < 10 \<and>
     format_2f x = (if x < 0 then ''-'' else []) @ digits (n div 100) @ ''.'' @
       [digit_char (n div 10 mod 10), digit_char (n mod 10)] \<and>
     decimal_value (digits (n div 100)) = n div 100 \<and>
     \<bar>\<bar>x\<bar> - (real (n div 100) + real (10 * (n div 10 mod 10) + n mod 10) / 100)\<bar> \<le> 1 / 200"
    unfolding val using near by (simp add: format_2f_def Let_def n_def decimal_value_digits)
  then show ?thesis
    by blast
qed

subsection \<open>Pixelation analysis, the pipeline and the OCR engine\<close>

lemma confidence_score_pixelation:
  "confidence_score dt sn ss (pixelation_analysis lib img) =
     confidence_score dt sn ss [] +
       (if Laplacian_var lib img < 50 then 0 else if Laplacian_var lib img < 100 then 1 else 2)"
  using high_message_tests [of "Laplacian_var lib img"]
    moderate_message_tests [of "Laplacian_var lib img"]
    low_message_tests [of "Laplacian_var lib img"]
  by (simp add: confidence_score_def pixelation_analysis_def Let_def)

text \<open>
  C7. The message is the high-pixelation one exactly when the variance is below 50, the
  moderate one exactly from 50 up to but not including 100, the low-pixelation one exactly
  from 100 up. In each case it ends with the variance in the format of \<open>format_2f\<close>:
  a decimal numeral, a point and two digits, which denote the multiple of 1/100 nearest to
  the variance.
\<close>

theorem pixelation_analysis_thresholds:
  "(pixelation_analysis lib img =
      ''High Pixelation Detected (Possible Tampering) - Score: '' @
        format_2f (Laplacian_var lib img) \<longleftrightarrow> Laplacian_var lib img < 50) \<and>
   (pixelation_analysis lib img =
      ''Moderate Pixelation - Score: '' @ format_2f (Laplacian_var lib img) \<longleftrightarrow>
        50 \<le> Laplacian_var lib img \<and> Laplacian_var lib img < 100) \<and>
   (pixelation_analysis lib img =
      ''Low Pixelation (Likely Authentic) - Score: '' @ format_2f (Laplacian_var lib img) \<longleftrightarrow>
        100 \<le> Laplacian_var lib img) \<and>
   (\<exists>a b c. b < 10 \<and> c < 10 \<and>
      format_2f (Laplacian_var lib img) =
        (if Laplacian_var lib img < 0 then ''-'' else []) @ digits a @ ''.'' @
          [digit_char b, digit_char c] \<and>
      decimal_value (digits a) = a \<and>
      \<bar>\<bar>Laplacian_var lib img\<bar> - (real a + real (10 * b + c) / 100)\<bar> \<le> 1 / 200)"
proof -
  have verdicts:
    "(pixelation_analysis lib img =
      ''High Pixelation Detected (Possible Tampering) - Score: '' @
        format_2f (Laplacian_var lib img) \<longleftrightarrow> Laplacian_var lib img < 50) \<and>
   (pixelation_analysis lib img =
      ''Moderate Pixelation - Score: '' @ format_2f (Laplacian_var lib img) \<longleftrightarrow>
        50 \<le> Laplacian_var lib img \<and> Laplacian_var lib img < 100) \<and>
   (pixelation_analysis lib img =
      ''Low Pixelation (Likely Authentic) - Score: '' @ format_2f (Laplacian_var lib img) \<longleftrightarrow>
        100 \<le> Laplacian_var lib img)"
    by (simp add: pixelation_analysis_def Let_def)
  with format_2f_value [of "Laplacian_var lib img"] show ?thesis
    by blast
qed

theorem pixelation_analysis_thresholds_witness:
  "pixelation_analysis (constant_library [] 0 (199 / 2)) () = ''Moderate Pixelation - Score: 99.50'' \<and>
   (50::real) \<le> 199 / 2 \<and> (199 / 2 :: real) < 100"
proof -
  have v: "Laplacian_var (constant_library [] 0 (199 / 2) :: unit library) () = 199 / 2"
    by (simp add: constant_library_def)
  have r: "round_half_even (\<bar>199 / 2\<bar> * 100) = 9950"
    by (simp add: round_half_even_def Let_def)
  have d: "digits 99 = ''99''" "digit_char 5 = CHR ''5''" "digit_char 0 = CHR ''0''"
    by code_simp+
  have f: "format_2f (199 / 2) = ''99.50''"
    unfolding format_2f_def Let_def r by (simp add: d)
  from pixelation_analysis_thresholds [of "constant_library [] 0 (199 / 2)" "()"]
  show ?thesis
    unfolding v f by simp
qed

text \<open>
  C3. With an unknown document type, no serial number, an edge mean of at most 100 (seal
  not detected) and a variance below 50 (high pixelation), the report of the pipeline has
  the score 3, not 0, and the recommendation HighFraudRisk.
\<close>

theorem all_signals_negative_scores_3:
  assumes "extract_text lib img = Inr t"
    and "detect_document_type t = ''Unknown Document Type''"
    and "check_serial_number t = ''Not Found''"
    and "\<not> mean lib (Canny lib img 100 200) > 100"
    and "Laplacian_var lib img < 50"
  shows "\<exists>r. validation_report lib img = Inr r \<and>
           seal_status r = ''Seal/Signature Not Detected'' \<and> score r = 3 \<and>
           advice r = HighFraudRisk"
proof -
  have seal: "detect_seals_and_signatures lib img = ''Seal/Signature Not Detected''"
    using assms(4) by (simp add: detect_seals_and_signatures_def Let_def)
  have "confidence_score ''Unknown Document Type'' ''Not Found''
      (detect_seals_and_signatures lib img) (pixelation_analysis lib img) =
    confidence_score ''Unknown Document Type'' ''Not Found'' [] (pixelation_analysis lib img) + 3"
    by (rule confidence_score_seal [OF seal_status_has_Detected])
  also have "\<dots> = confidence_score ''Unknown Document Type'' ''Not Found'' [] [] + 0 + 3"
    using assms(5) by (simp add: confidence_score_pixelation)
  also have "\<dots> = 3"
    by (simp add: confidence_score_def)
  finally have "confidence_score ''Unknown Document Type'' ''Not Found''
      (detect_seals_and_signatures lib img) (pixelation_analysis lib img) = 3" .
  with assms(1-3) seal show ?thesis
    by (simp add: validation_report_def Let_def recommendation_def)
qed

theorem all_signals_negative_scores_3_witness:
  "\<exists>r. validation_report (constant_library ''no phrase, no token'' 20 (25 / 2)) () = Inr r \<and>
           seal_status r = ''Seal/Signature Not Detected'' \<and> score r = 3 \<and>
           advice r = HighFraudRisk"
proof -
  have "extract_text (constant_library ''no phrase, no token'' 20 (25 / 2)) () =
      Inr ''no phrase, no token''"
    by (simp add: extract_text_def constant_library_def Let_def)
  moreover have "detect_document_type ''no phrase, no token'' = ''Unknown Document Type''"
    by code_simp
  moreover have "check_serial_number ''no phrase, no token'' = ''Not Found''"
    by code_simp
  moreover have "\<not> mean (constant_library ''no phrase, no token'' 20 (25 / 2))
      (Canny (constant_library ''no phrase, no token'' 20 (25 / 2)) () 100 200) > 100"
    by (simp add: constant_library_def)
  moreover have "Laplacian_var (constant_library ''no phrase, no token'' 20 (25 / 2)) () < 50"
    by (simp add: constant_library_def)
  ultimately show ?thesis
    by (rule all_signals_negative_scores_3)
qed

text \<open>
  C1. For a certificate of birth with no serial number, the seal not detected and moderate
  pixelation, the rule table gives 3 + 0 + 0 + 1 = 4 and HighFraudRisk; the pipeline gives
  7 and Proceed, since its seal rule also fires on the verdict "not detected".
\<close>

theorem score_differs_from_rule_table:
  "validation_report (constant_library ''Certificate of Birth'' 0 75) () =
     Inr \<lparr>document_type = ''Certificate of Birth'', serial_number = ''Not Found'',
          seal_status = ''Seal/Signature Not Detected'',
          pixelation_result = ''Moderate Pixelation - Score: 75.00'',
          score = 7, advice = Proceed\<rparr> \<and>
   table_score CertificateOfBirth None NotDetected ModeratePixelation = 4 \<and>
   recommendation 4 = HighFraudRisk"
proof -
  have t: "extract_text (constant_library ''Certificate of Birth'' 0 75) () =
      Inr ''Certificate of Birth''"
    by (simp add: extract_text_def constant_library_def Let_def)
  have d: "detect_document_type ''Certificate of Birth'' = ''Certificate of Birth''"
    by code_simp
  have s: "check_serial_number ''Certificate of Birth'' = ''Not Found''"
    by code_simp
  have ss: "detect_seals_and_signatures (constant_library ''Certificate of Birth'' 0 75) () =
      ''Seal/Signature Not Detected''"
    by (simp add: detect_seals_and_signatures_def constant_library_def)
  have rd: "round_half_even (\<bar>75\<bar> * 100) = 7500"
    by (simp add: round_half_even_def Let_def)
  have dg: "digits 75 = ''75''" "digit_char 0 = CHR ''0''"
    by code_simp+
  have f: "format_2f 75 = ''75.00''"
    unfolding format_2f_def Let_def rd by (simp add: dg)
  have p: "pixelation_analysis (constant_library ''Certificate of Birth'' 0 75) () =
      ''Moderate Pixelation - Score: 75.00''"
    by (simp add: pixelation_analysis_def constant_library_def f)
  have c: "confidence_score ''Certificate of Birth'' ''Not Found'' ''Seal/Signature Not Detected''
      ''Moderate Pixelation - Score: 75.00'' = 7"
    by code_simp
  have r: "validation_report (constant_library ''Certificate of Birth'' 0 75) () =
     Inr \<lparr>document_type = ''Certificate of Birth'', serial_number = ''Not Found'',
          seal_status = ''Seal/Signature Not Detected'',
          pixelation_result = ''Moderate Pixelation - Score: 75.00'',
          score = 7, advice = Proceed\<rparr>"
    by (simp add: validation_report_def t d s ss p c recommendation_def)
  have tab: "table_score CertificateOfBirth None NotDetected ModeratePixelation = 4"
    by (simp add: table_score_def)
  have rec: "recommendation 4 = HighFraudRisk"
    by (simp add: recommendation_def)
  from r tab rec show ?thesis
    by blast
qed

text \<open>
  C8, as amended. \<open>extract_text\<close> returns what the OCR call returns on the
  preprocessed image: the text, which may be empty, or the exception, which it does not
  catch. An exception ends the pipeline without a report; an empty text gives a report
  with the unknown document type and no serial number.
\<close>

theorem extract_text_propagates:
  "extract_text lib img = image_to_string lib (preprocess_image lib img) ''--psm 6'' \<and>
   (extract_text lib img = Inl e \<longrightarrow> validation_report lib img = Inl e) \<and>
   (extract_text lib img = Inr [] \<longrightarrow>
      (\<exists>r. validation_report lib img = Inr r \<and> document_type r = ''Unknown Document Type'' \<and>
           serial_number r = ''Not Found''))"
proof -
  have a: "extract_text lib img = image_to_string lib (preprocess_image lib img) ''--psm 6''"
    by (simp add: extract_text_def Let_def split: sum.splits)
  have b: "validation_report lib img = Inl e" if "extract_text lib img = Inl e"
    using that by (simp add: validation_report_def)
  have d: "detect_document_type [] = ''Unknown Document Type''"
    by code_simp
  have s: "check_serial_number [] = ''Not Found''"
    by code_simp
  have c: "\<exists>r. validation_report lib img = Inr r \<and> document_type r = ''Unknown Document Type'' \<and>
           serial_number r = ''Not Found''" if "extract_text lib img = Inr []"
    using that d s by (simp add: validation_report_def Let_def)
  from a b c show ?thesis
    by blast
qed

theorem extract_text_propagates_witness:
  "extract_text failing_ocr_library () = Inl TesseractError \<and>
   validation_report failing_ocr_library () = Inl TesseractError \<and>
   extract_text (constant_library [] 0 0) () = Inr [] \<and>
   (\<exists>r. validation_report (constant_library [] 0 0) () = Inr r \<and>
        document_type r = ''Unknown Document Type'' \<and> serial_number r = ''Not Found'')"
proof -
  have f: "extract_text failing_ocr_library () = Inl TesseractError"
    by (simp add: extract_text_def failing_ocr_library_def constant_library_def Let_def)
  have g: "extract_text (constant_library [] 0 0) () = Inr []"
    by (simp add: extract_text_def constant_library_def Let_def)
  from extract_text_propagates [of failing_ocr_library "()" TesseractError] f
       extract_text_propagates [of "constant_library [] 0 0" "()"] g
  show ?thesis
    by blast
qed

text \<open>
  C8, as stated, fails when the OCR call raises: \<open>extract_text\<close> raises too, and its
  result is not the empty text.
\<close>

theorem ocr_failure_counterexample:
  "image_to_string (failing_ocr_library :: unit library)
      (preprocess_image failing_ocr_library ()) ''--psm 6'' = Inl TesseractError \<and>
   extract_text (failing_ocr_library :: unit library) () = Inl TesseractError \<and>
   extract_text (failing_ocr_library :: unit library) () \<noteq> Inr []"
  by (simp add: extract_text_def failing_ocr_library_def constant_library_def Let_def)

end
